theory Spec2Isabelle
  imports Main "HOL-Library.Multiset" "HOL-Library.Char_ord" "HOL-Library.List_Lexorder"
begin

section \<open>Strings of the JavaScript runtime\<close>

text \<open>
  A JavaScript string is a sequence of code units. The model is \<open>string\<close>, one \<open>char\<close> per
  code unit, which covers the code units 0 to 255 (ASCII and Latin-1); the stock identifiers,
  contractor names and field names of the application are ASCII.
\<close>

definition lowerChar :: "char \<Rightarrow> char" where
  \<comment> \<open>Unicode lower-casing of one code unit below 256: A-Z, and U+00C0 to U+00DE without the
      multiplication sign U+00D7, move up by 32.\<close>
  "lowerChar c =
     (let n = (of_char c :: nat)
      in if (65 \<le> n \<and> n \<le> 90) \<or> (192 \<le> n \<and> n \<le> 222 \<and> n \<noteq> 215)
         then char_of (n + 32) else c)"

definition toLowerCase :: "string \<Rightarrow> string" where
  "toLowerCase s = map lowerChar s"

definition isWhiteSpace :: "char \<Rightarrow> bool" where
  \<comment> \<open>White space and line terminators of ECMAScript below 256: TAB, LF, VT, FF, CR, SP, NBSP.\<close>
  "isWhiteSpace c = ((of_char c :: nat) \<in> {9, 10, 11, 12, 13, 32, 160})"

definition trim :: "string \<Rightarrow> string" where
  "trim s = rev (dropWhile isWhiteSpace (rev (dropWhile isWhiteSpace s)))"

fun startsWith :: "string \<Rightarrow> string \<Rightarrow> bool" where
  "startsWith s [] = True"
| "startsWith [] (q # qs) = False"
| "startsWith (c # cs) (q # qs) = (c = q \<and> startsWith cs qs)"

fun includesStr :: "string \<Rightarrow> string \<Rightarrow> bool" where
  \<comment> \<open>\<open>String.prototype.includes\<close>: the argument occurs at some position.\<close>
  "includesStr [] q = (q = [])"
| "includesStr (c # cs) q = (startsWith (c # cs) q \<or> includesStr cs q)"

definition charAt :: "string \<Rightarrow> nat \<Rightarrow> char option" where
  \<comment> \<open>\<open>str[i]\<close>: \<open>undefined\<close> (here \<open>None\<close>) at and beyond the length.\<close>
  "charAt s i = (if i < length s then Some (s ! i) else None)"

section \<open>Records\<close>

record tos_record =
  ID :: int
  CONTRACTOR :: string
  DATE :: string
  SHIFT :: string
  STOCK_ID :: string
  STOCK_STATUS :: string

text \<open>The union type \<open>'SHIFT' | 'STOCK_STATUS'\<close> of the client.\<close>

datatype mutable_field = F_SHIFT | F_STOCK_STATUS

fun fieldName :: "mutable_field \<Rightarrow> string" where
  "fieldName F_SHIFT = ''SHIFT''"
| "fieldName F_STOCK_STATUS = ''STOCK_STATUS''"

record pending_update =
  pu_id :: string
  recordId :: int
  field :: mutable_field
  oldValue :: string
  newValue :: string
  timestamp :: nat
  synced :: bool

section \<open>Local search (client database)\<close>

function distanceLoop :: "string \<Rightarrow> string \<Rightarrow> nat \<Rightarrow> nat \<Rightarrow> nat \<Rightarrow> nat" where
  "distanceLoop str1 str2 maxLength i distance =
     (if i < maxLength
      then (if (if charAt str1 i \<noteq> charAt str2 i then distance + 1 else distance) > 2
            then 99
            else distanceLoop str1 str2 maxLength (i + 1)
                   (if charAt str1 i \<noteq> charAt str2 i then distance + 1 else distance))
      else distance)"
  by pat_completeness auto
termination
  by (relation "measure (\<lambda>(str1, str2, maxLength, i, distance). maxLength - i)") auto

declare distanceLoop.simps [simp del]

definition calculateSimpleDistance :: "string \<Rightarrow> string \<Rightarrow> nat" where
  "calculateSimpleDistance str1 str2 =
     (if \<bar>int (length str1) - int (length str2)\<bar> > 2 then 99
      else distanceLoop str1 str2 (max (length str1) (length str2)) 0 0)"

definition priorityOf :: "string \<Rightarrow> tos_record \<Rightarrow> nat" where
  \<comment> \<open>The body of the \<open>forEach\<close> callback of \<open>searchRecords\<close>: 0 means no match.\<close>
  "priorityOf query record =
     (let recordStockId = toLowerCase (STOCK_ID record);
          contractor = toLowerCase (CONTRACTOR record)
      in if recordStockId = query then 1
         else if startsWith recordStockId query then 2
         else if includesStr recordStockId query then 3
         else if includesStr contractor query then 4
         else if calculateSimpleDistance recordStockId query \<le> 2 \<and> length query > 2 then 5
         else 0)"

record search_match =
  match_record :: tos_record
  match_priority :: nat

fun collectMatches :: "string \<Rightarrow> tos_record list \<Rightarrow> search_match list" where
  "collectMatches query [] = []"
| "collectMatches query (r # rs) =
     (if priorityOf query r > 0
      then \<lparr>match_record = r, match_priority = priorityOf query r\<rparr> # collectMatches query rs
      else collectMatches query rs)"

text \<open>
  \<open>Array.prototype.sort\<close> with a comparison function is stable: for a consistent
  comparison function its result is the stable sorting of the array, which insertion from
  the right computes.
\<close>

fun insertBy :: "('a \<Rightarrow> 'a \<Rightarrow> int) \<Rightarrow> 'a \<Rightarrow> 'a list \<Rightarrow> 'a list" where
  "insertBy cmp x [] = [x]"
| "insertBy cmp x (y # ys) = (if cmp x y \<le> 0 then x # y # ys else y # insertBy cmp x ys)"

fun arraySort :: "('a \<Rightarrow> 'a \<Rightarrow> int) \<Rightarrow> 'a list \<Rightarrow> 'a list" where
  "arraySort cmp [] = []"
| "arraySort cmp (x # xs) = insertBy cmp x (arraySort cmp xs)"

definition compareMatches :: "(string \<Rightarrow> string \<Rightarrow> int) \<Rightarrow> search_match \<Rightarrow> search_match \<Rightarrow> int" where
  \<comment> \<open>The comparison function of the local search; \<open>localeCompare\<close> is the collation of the
      runtime, a parameter of the model.\<close>
  "compareMatches localeCompare a b =
     (if match_priority a \<noteq> match_priority b
      then int (match_priority a) - int (match_priority b)
      else if length (STOCK_ID (match_record a)) \<noteq> length (STOCK_ID (match_record b))
      then int (length (STOCK_ID (match_record a))) - int (length (STOCK_ID (match_record b)))
      else localeCompare (STOCK_ID (match_record a)) (STOCK_ID (match_record b)))"

text \<open>
  The client database: two object stores with an in-line key (\<open>keyPath\<close>), each held as the
  list of its values in ascending key order, which is the order \<open>getAll\<close> returns.
\<close>

record tos_db =
  tosRecords :: "tos_record list"
  pendingUpdates :: "pending_update list"

definition getAllRecords :: "tos_db \<Rightarrow> tos_record list" where
  "getAllRecords db = tosRecords db"

definition searchRecords :: "(string \<Rightarrow> string \<Rightarrow> int) \<Rightarrow> string \<Rightarrow> tos_db \<Rightarrow> tos_record list" where
  "searchRecords localeCompare stockId db =
     (let allRecords = getAllRecords db
      in if trim stockId = [] then allRecords
         else (let query = trim (toLowerCase stockId);
                   results = collectMatches query allRecords
               in map match_record (arraySort (compareMatches localeCompare) results)))"

definition codeUnitCompare :: "string \<Rightarrow> string \<Rightarrow> int" where
  \<comment> \<open>A sample collation for evaluating concrete searches: comparison by code units.\<close>
  "codeUnitCompare a b = (if a < b then - 1 else if a = b then 0 else 1)"

text \<open>
  A model of \<open>localeCompare\<close> in the default locale on the identifiers of the application
  (ASCII letters, digits and full stops): strings are compared without regard to case first,
  and when they differ in case only, a lower-case letter comes before its upper-case letter.
\<close>

definition localeCompareModel :: "string \<Rightarrow> string \<Rightarrow> int" where
  "localeCompareModel a b =
     (if toLowerCase a < toLowerCase b then - 1
      else if toLowerCase b < toLowerCase a then 1
      else if b < a then - 1
      else if a = b then 0
      else 1)"

section \<open>The ranking as the specification words it\<close>

text \<open>
  The Hamming-style distance of the specification: the number of positions, up to the
  length of the longer string, at which the two strings differ (a position beyond the end
  of the shorter string differs from every character).
\<close>

definition mismatches :: "string \<Rightarrow> string \<Rightarrow> nat" where
  "mismatches s q =
     length (filter (\<lambda>k. charAt s k \<noteq> charAt q k) [0..<max (length s) (length q)])"

text \<open>
  The five tiers in the words of the specification, where the fuzzy tier asks for a distance
  of at most 2 and nothing else.
\<close>

definition specTierApplies :: "nat \<Rightarrow> string \<Rightarrow> tos_record \<Rightarrow> bool" where
  "specTierApplies k query r =
     (if k = 1 then toLowerCase (STOCK_ID r) = query
      else if k = 2 then startsWith (toLowerCase (STOCK_ID r)) query
      else if k = 3 then includesStr (toLowerCase (STOCK_ID r)) query
      else if k = 4 then includesStr (toLowerCase (CONTRACTOR r)) query
      else if k = 5 then calculateSimpleDistance (toLowerCase (STOCK_ID r)) query \<le> 2
      else False)"

text \<open>The same tiers, the fuzzy tier open only to queries of more than two code units.\<close>

definition tierApplies :: "nat \<Rightarrow> string \<Rightarrow> tos_record \<Rightarrow> bool" where
  "tierApplies k query r =
     (if k = 1 then toLowerCase (STOCK_ID r) = query
      else if k = 2 then startsWith (toLowerCase (STOCK_ID r)) query
      else if k = 3 then includesStr (toLowerCase (STOCK_ID r)) query
      else if k = 4 then includesStr (toLowerCase (CONTRACTOR r)) query
      else if k = 5 then calculateSimpleDistance (toLowerCase (STOCK_ID r)) query \<le> 2
                         \<and> length query > 2
      else False)"

definition lowestTier ::
  "(nat \<Rightarrow> string \<Rightarrow> tos_record \<Rightarrow> bool) \<Rightarrow> string \<Rightarrow> tos_record \<Rightarrow> nat option" where
  \<comment> \<open>The lowest-numbered tier that applies, if any.\<close>
  "lowestTier applies query r = find (\<lambda>k. applies k query r) [1, 2, 3, 4, 5]"

definition rankedBefore ::
  "(string \<Rightarrow> string \<Rightarrow> int) \<Rightarrow> string \<Rightarrow> tos_record \<Rightarrow> tos_record \<Rightarrow> bool" where
  \<comment> \<open>Ascending by tier, then by length of the stock identifier, then by the collation.\<close>
  "rankedBefore localeCompare query a b =
     (priorityOf query a < priorityOf query b \<or>
      (priorityOf query a = priorityOf query b \<and>
         (length (STOCK_ID a) < length (STOCK_ID b) \<or>
          (length (STOCK_ID a) = length (STOCK_ID b) \<and>
           localeCompare (STOCK_ID a) (STOCK_ID b) \<le> 0))))"

definition specRankedBefore :: "string \<Rightarrow> tos_record \<Rightarrow> tos_record \<Rightarrow> bool" where
  \<comment> \<open>The order in the words of the specification: the third key is the lexicographic
      comparison of the stock identifiers, code unit by code unit.\<close>
  "specRankedBefore query a b =
     (priorityOf query a < priorityOf query b \<or>
      (priorityOf query a = priorityOf query b \<and>
         (length (STOCK_ID a) < length (STOCK_ID b) \<or>
          (length (STOCK_ID a) = length (STOCK_ID b) \<and> STOCK_ID a \<le> STOCK_ID b))))"

definition consistentCmp :: "('a \<Rightarrow> 'a \<Rightarrow> int) \<Rightarrow> bool" where
  \<comment> \<open>What sorting needs of a comparison function: any two elements are comparable, and
      the comparison is transitive.\<close>
  "consistentCmp cmp =
     ((\<forall>a b. cmp a b \<le> 0 \<or> cmp b a \<le> 0) \<and>
      (\<forall>a b c. cmp a b \<le> 0 \<and> cmp b c \<le> 0 \<longrightarrow> cmp a c \<le> 0))"

section \<open>Sample data for the search\<close>

definition sampleRecords :: "tos_record list" where
  "sampleRecords =
    [\<lparr>ID = 1, CONTRACTOR = ''ABC Mining Co'', DATE = ''2025-01-15'', SHIFT = ''Day Shift'',
       STOCK_ID = ''BB.D.5348'', STOCK_STATUS = ''Active''\<rparr>,
     \<lparr>ID = 2, CONTRACTOR = ''XYZ Corp'', DATE = ''2025-01-15'', SHIFT = ''Night Shift'',
       STOCK_ID = ''CC.A.5348.01'', STOCK_STATUS = ''Full''\<rparr>,
     \<lparr>ID = 3, CONTRACTOR = ''Mining Solutions Ltd'', DATE = ''2025-01-16'', SHIFT = ''Day Shift'',
       STOCK_ID = ''AA.B.1234'', STOCK_STATUS = ''Empty''\<rparr>,
     \<lparr>ID = 4, CONTRACTOR = ''ABC Mining Co'', DATE = ''2025-01-16'', SHIFT = ''Morning Shift'',
       STOCK_ID = ''DD.C.5348.02'', STOCK_STATUS = ''Maintenance''\<rparr>]"

definition sampleDb :: tos_db where
  "sampleDb = \<lparr>tosRecords = sampleRecords, pendingUpdates = []\<rparr>"

definition caseDb :: tos_db where
  "caseDb = \<lparr>tosRecords =
       [\<lparr>ID = 11, CONTRACTOR = ''XYZ Corp'', DATE = ''2025-01-20'', SHIFT = ''Day Shift'',
          STOCK_ID = ''C.5348'', STOCK_STATUS = ''Active''\<rparr>,
        \<lparr>ID = 12, CONTRACTOR = ''XYZ Corp'', DATE = ''2025-01-20'', SHIFT = ''Night Shift'',
          STOCK_ID = ''b.5348'', STOCK_STATUS = ''Full''\<rparr>],
     pendingUpdates = []\<rparr>"

definition fuzzyRecord :: tos_record where
  "fuzzyRecord = \<lparr>ID = 9, CONTRACTOR = ''Rock Extractors Inc'', DATE = ''2025-01-17'',
     SHIFT = ''Day Shift'', STOCK_ID = ''XY'', STOCK_STATUS = ''Active''\<rparr>"

section \<open>Numbers in template strings\<close>

text \<open>
  \<open>`${n}`\<close> for an integer \<open>n\<close> in the range that JavaScript numbers hold exactly is its
  decimal numeral, with a minus sign when negative.
\<close>

definition digitChar :: "nat \<Rightarrow> char" where
  "digitChar d = char_of (48 + d)"

fun showNat :: "nat \<Rightarrow> string" where
  "showNat n = (if n < 10 then [digitChar n] else showNat (n div 10) @ [digitChar (n mod 10)])"

declare showNat.simps [simp del]

definition showInt :: "int \<Rightarrow> string" where
  "showInt i = (if i < 0 then CHR ''-'' # showNat (nat (- i)) else showNat (nat i))"

section \<open>Errors\<close>

text \<open>
  \<open>Error m\<close> is \<open>new Error(m)\<close>; \<open>ConstraintError\<close> is the exception with which an object
  store refuses to \<open>add\<close> a value under a key that it holds already.
\<close>

datatype error = Error (message: string) | ConstraintError

section \<open>Offline mutation log (client database)\<close>

text \<open>
  Operations of an object store with an in-line key: \<open>get\<close>, \<open>put\<close> (insert or replace),
  \<open>add\<close> (insert, refused when the key exists) and \<open>delete\<close>. The records are keyed by
  \<open>ID\<close>, the pending updates by \<open>id\<close>; string keys are ordered by code units.
\<close>

definition storeGet :: "int \<Rightarrow> tos_record list \<Rightarrow> tos_record option" where
  "storeGet k rs = find (\<lambda>r. ID r = k) rs"

fun storePut :: "tos_record \<Rightarrow> tos_record list \<Rightarrow> tos_record list" where
  "storePut r [] = [r]"
| "storePut r (x # xs) =
     (if ID r = ID x then r # xs
      else if ID r < ID x then r # x # xs
      else x # storePut r xs)"

fun storeInsert :: "pending_update \<Rightarrow> pending_update list \<Rightarrow> pending_update list" where
  "storeInsert p [] = [p]"
| "storeInsert p (x # xs) = (if pu_id p < pu_id x then p # x # xs else x # storeInsert p xs)"

definition storeAdd :: "pending_update \<Rightarrow> pending_update list \<Rightarrow> pending_update list option" where
  "storeAdd p ps = (if pu_id p \<in> set (map pu_id ps) then None else Some (storeInsert p ps))"

fun storeDelete :: "string \<Rightarrow> pending_update list \<Rightarrow> pending_update list" where
  "storeDelete k [] = []"
| "storeDelete k (x # xs) = (if pu_id x = k then storeDelete k xs else x # storeDelete k xs)"

fun readField :: "mutable_field \<Rightarrow> tos_record \<Rightarrow> string" where
  "readField F_SHIFT r = SHIFT r"
| "readField F_STOCK_STATUS r = STOCK_STATUS r"

fun writeField :: "mutable_field \<Rightarrow> string \<Rightarrow> tos_record \<Rightarrow> tos_record" where
  "writeField F_SHIFT v r = r\<lparr>SHIFT := v\<rparr>"
| "writeField F_STOCK_STATUS v r = r\<lparr>STOCK_STATUS := v\<rparr>"

definition pendingId :: "int \<Rightarrow> mutable_field \<Rightarrow> nat \<Rightarrow> string" where
  \<comment> \<open>\<open>`${id}-${field}-${Date.now()}`\<close>\<close>
  "pendingId recId fld now = showInt recId @ ''-'' @ fieldName fld @ ''-'' @ showNat now"

text \<open>
  \<open>updateRecord\<close> reads the clock twice, for the identifier (\<open>nowId\<close>) and for the timestamp
  (\<open>nowStamp\<close>); both readings are parameters. The three requests run in one transaction: when
  the \<open>add\<close> is refused the transaction is aborted, so the \<open>put\<close> before it is undone and the
  database is as it was.
\<close>

definition updateRecord ::
  "nat \<Rightarrow> nat \<Rightarrow> int \<Rightarrow> mutable_field \<Rightarrow> string \<Rightarrow> tos_db \<Rightarrow> (error + unit) \<times> tos_db" where
  "updateRecord nowId nowStamp recId fld newVal db =
     (case storeGet recId (tosRecords db) of
        None \<Rightarrow> (Inl (Error ''Record not found''), db)
      | Some record \<Rightarrow>
          (let oldVal = readField fld record;
               record' = writeField fld newVal record;
               pendingUpdate = \<lparr>pu_id = pendingId recId fld nowId, recordId = recId, field = fld,
                                oldValue = oldVal, newValue = newVal, timestamp = nowStamp,
                                synced = False\<rparr>
           in case storeAdd pendingUpdate (pendingUpdates db) of
                None \<Rightarrow> (Inl ConstraintError, db)
              | Some pending' \<Rightarrow>
                  (Inr (), db\<lparr>tosRecords := storePut record' (tosRecords db),
                              pendingUpdates := pending'\<rparr>)))"

definition getPendingUpdates :: "tos_db \<Rightarrow> pending_update list" where
  "getPendingUpdates db = pendingUpdates db"

definition clearPendingUpdate :: "string \<Rightarrow> tos_db \<Rightarrow> tos_db" where
  "clearPendingUpdate k db = db\<lparr>pendingUpdates := storeDelete k (pendingUpdates db)\<rparr>"

text \<open>A run of edits, each with its two clock readings; \<open>None\<close> when one of them fails.\<close>

record edit =
  e_nowId :: nat
  e_nowStamp :: nat
  e_recordId :: int
  e_field :: mutable_field
  e_value :: string

fun applyEdits :: "edit list \<Rightarrow> tos_db \<Rightarrow> tos_db option" where
  "applyEdits [] db = Some db"
| "applyEdits (e # es) db =
     (case updateRecord (e_nowId e) (e_nowStamp e) (e_recordId e) (e_field e) (e_value e) db of
        (Inl err, db') \<Rightarrow> None
      | (Inr u, db') \<Rightarrow> applyEdits es db')"

definition editId :: "edit \<Rightarrow> string" where
  "editId e = pendingId (e_recordId e) (e_field e) (e_nowId e)"

section \<open>Server model on in-memory data\<close>

definition allowedFields :: "string list" where
  "allowedFields = [''SHIFT'', ''STOCK_STATUS'']"

fun findIndex :: "('a \<Rightarrow> bool) \<Rightarrow> 'a list \<Rightarrow> nat option" where
  \<comment> \<open>\<open>None\<close> is the result -1.\<close>
  "findIndex P [] = None"
| "findIndex P (x # xs) = (if P x then Some 0 else map_option Suc (findIndex P xs))"

definition assignField :: "string \<Rightarrow> string \<Rightarrow> tos_record \<Rightarrow> tos_record" where
  \<comment> \<open>\<open>record[field] = value\<close>, which the server reaches with an allowed field name only.\<close>
  "assignField fld v r =
     (if fld = ''SHIFT'' then r\<lparr>SHIFT := v\<rparr>
      else if fld = ''STOCK_STATUS'' then r\<lparr>STOCK_STATUS := v\<rparr>
      else r)"

definition mock_updateRecord ::
  "int \<Rightarrow> string \<Rightarrow> string \<Rightarrow> tos_record list \<Rightarrow> (error + tos_record) \<times> tos_record list" where
  "mock_updateRecord recId fld v data =
     (case findIndex (\<lambda>r. ID r = recId) data of
        None \<Rightarrow> (Inl (Error (''Record with ID '' @ showInt recId @ '' not found'')), data)
      | Some recordIndex \<Rightarrow>
          if fld \<notin> set allowedFields then (Inl (Error (''Invalid field: '' @ fld)), data)
          else (let data' = data[recordIndex := assignField fld v (data ! recordIndex)]
                in (Inr (data' ! recordIndex), data')))"

record update_request =
  upd_id :: int
  upd_field :: string
  upd_value :: string

record bulk_error =
  err_id :: int
  err_error :: string

record bulk_results =
  successful :: nat
  failed :: nat
  errors :: "bulk_error list"

fun bulkLoop :: "update_request list \<Rightarrow> bulk_results \<Rightarrow> tos_record list \<Rightarrow> bulk_results \<times> tos_record list" where
  "bulkLoop [] results data = (results, data)"
| "bulkLoop (update # updates) results data =
     (case mock_updateRecord (upd_id update) (upd_field update) (upd_value update) data of
        (Inr r, data') \<Rightarrow> bulkLoop updates (results\<lparr>successful := successful results + 1\<rparr>) data'
      | (Inl e, data') \<Rightarrow>
          bulkLoop updates
            (results\<lparr>failed := failed results + 1,
                     errors := errors results @ [\<lparr>err_id = upd_id update, err_error = message e\<rparr>]\<rparr>)
            data')"

definition mock_bulkUpdate :: "update_request list \<Rightarrow> tos_record list \<Rightarrow> bulk_results \<times> tos_record list" where
  "mock_bulkUpdate updates data = bulkLoop updates \<lparr>successful = 0, failed = 0, errors = []\<rparr> data"

record search_filters =
  f_contractor :: "string option"
  f_status :: "string option"
  f_limit :: "nat option"
  f_offset :: "nat option"

record tos_row = tos_record +
  total_count :: nat

record search_result =
  records :: "tos_row list"
  total :: nat

definition withTotalCount :: "nat \<Rightarrow> tos_record \<Rightarrow> tos_row" where
  \<comment> \<open>\<open>{ ...r, total_count: total }\<close>\<close>
  "withTotalCount n r =
     \<lparr>ID = ID r, CONTRACTOR = CONTRACTOR r, DATE = DATE r, SHIFT = SHIFT r,
      STOCK_ID = STOCK_ID r, STOCK_STATUS = STOCK_STATUS r, total_count = n\<rparr>"

definition compareMock :: "string \<Rightarrow> tos_record \<Rightarrow> tos_record \<Rightarrow> int" where
  "compareMock searchTerm a b =
     (let aStockId = toLowerCase (STOCK_ID a); bStockId = toLowerCase (STOCK_ID b)
      in if aStockId = searchTerm \<and> bStockId \<noteq> searchTerm then - 1
         else if bStockId = searchTerm \<and> aStockId \<noteq> searchTerm then 1
         else if startsWith aStockId searchTerm \<and> \<not> startsWith bStockId searchTerm then - 1
         else if startsWith bStockId searchTerm \<and> \<not> startsWith aStockId searchTerm then 1
         else int (length aStockId) - int (length bStockId))"

definition truthy :: "string option \<Rightarrow> bool" where
  \<comment> \<open>An absent, \<open>null\<close> or empty string is falsy.\<close>
  "truthy s = (case s of None \<Rightarrow> False | Some v \<Rightarrow> v \<noteq> [])"

definition mockMatches :: "string \<Rightarrow> tos_record \<Rightarrow> bool" where
  \<comment> \<open>The callback of the filter of the search.\<close>
  "mockMatches searchTerm record =
     (let stockId = toLowerCase (STOCK_ID record); contractor = toLowerCase (CONTRACTOR record)
      in includesStr stockId searchTerm \<or> includesStr contractor searchTerm)"

definition mock_searchRecords :: "string \<Rightarrow> search_filters \<Rightarrow> tos_record list \<Rightarrow> search_result" where
  "mock_searchRecords query filters data =
     (let results1 = (if trim query \<noteq> []
                      then arraySort (compareMock (toLowerCase query))
                             (filter (mockMatches (toLowerCase query)) data)
                      else data);
          results2 = (if truthy (f_contractor filters)
                      then filter (\<lambda>record. Some (CONTRACTOR record) = f_contractor filters) results1
                      else results1);
          results3 = (if truthy (f_status filters)
                      then filter (\<lambda>record. Some (STOCK_STATUS record) = f_status filters) results2
                      else results2);
          limit = (case f_limit filters of None \<Rightarrow> 50 | Some l \<Rightarrow> if l = 0 then 50 else l);
          offset = (case f_offset filters of None \<Rightarrow> 0 | Some off \<Rightarrow> off);
          total = length results3;
          paginatedResults = take limit (drop offset results3)
      in \<lparr>records = map (withTotalCount total) paginatedResults, total = total\<rparr>)"

definition noFilters :: search_filters where
  "noFilters = \<lparr>f_contractor = None, f_status = None, f_limit = None, f_offset = None\<rparr>"

text \<open>
  What a batch item contributes to \<open>errors\<close> when the update of that item alone fails on
  the data, and the data after an item, whether its update fails or not.
\<close>

definition failureOf :: "tos_record list \<Rightarrow> update_request \<Rightarrow> bulk_error option" where
  "failureOf data u =
     (case fst (mock_updateRecord (upd_id u) (upd_field u) (upd_value u) data) of
        Inl e \<Rightarrow> Some \<lparr>err_id = upd_id u, err_error = message e\<rparr>
      | Inr r \<Rightarrow> None)"

definition applyIgnoringFailure :: "tos_record list \<Rightarrow> update_request \<Rightarrow> tos_record list" where
  "applyIgnoringFailure data u = snd (mock_updateRecord (upd_id u) (upd_field u) (upd_value u) data)"

text \<open>
  The three classes that the comparison function of the server search tells apart: exact
  match of the stock identifier, prefix match, anything else.
\<close>

definition relevanceClass :: "string \<Rightarrow> tos_record \<Rightarrow> nat" where
  "relevanceClass searchTerm r =
     (if toLowerCase (STOCK_ID r) = searchTerm then 1
      else if startsWith (toLowerCase (STOCK_ID r)) searchTerm then 2
      else 3)"

text \<open>Reading a decimal numeral back, to show that \<open>showNat\<close> loses nothing.\<close>

definition digitVal :: "char \<Rightarrow> nat" where
  "digitVal c = of_char c - 48"

definition readNat :: "string \<Rightarrow> nat" where
  "readNat s = foldl (\<lambda>a c. a * 10 + digitVal c) 0 s"

section \<open>Sample data for the mutation log and the server model\<close>

definition bulkSample :: "update_request list" where
  "bulkSample =
     [\<lparr>upd_id = 1, upd_field = ''SHIFT'', upd_value = ''Night Shift''\<rparr>,
      \<lparr>upd_id = 7, upd_field = ''SHIFT'', upd_value = ''Night Shift''\<rparr>,
      \<lparr>upd_id = 2, upd_field = ''DATE'', upd_value = ''2025-02-01''\<rparr>,
      \<lparr>upd_id = 2, upd_field = ''STOCK_STATUS'', upd_value = ''Empty''\<rparr>]"

definition firstEdit :: edit where
  "firstEdit = \<lparr>e_nowId = 1700000000000, e_nowStamp = 1700000000000, e_recordId = 2,
     e_field = F_SHIFT, e_value = ''Day Shift''\<rparr>"

definition secondEdit :: edit where
  "secondEdit = \<lparr>e_nowId = 1700000000001, e_nowStamp = 1700000000001, e_recordId = 1,
     e_field = F_SHIFT, e_value = ''Night Shift''\<rparr>"

definition queuedDb :: tos_db where
  "queuedDb = \<lparr>tosRecords =
       [\<lparr>ID = 1, CONTRACTOR = ''ABC Mining Co'', DATE = ''2025-01-15'', SHIFT = ''Night Shift'',
          STOCK_ID = ''BB.D.5348'', STOCK_STATUS = ''Active''\<rparr>,
        \<lparr>ID = 2, CONTRACTOR = ''XYZ Corp'', DATE = ''2025-01-15'', SHIFT = ''Day Shift'',
          STOCK_ID = ''CC.A.5348.01'', STOCK_STATUS = ''Full''\<rparr>,
        \<lparr>ID = 3, CONTRACTOR = ''Mining Solutions Ltd'', DATE = ''2025-01-16'', SHIFT = ''Day Shift'',
          STOCK_ID = ''AA.B.1234'', STOCK_STATUS = ''Empty''\<rparr>,
        \<lparr>ID = 4, CONTRACTOR = ''ABC Mining Co'', DATE = ''2025-01-16'', SHIFT = ''Morning Shift'',
          STOCK_ID = ''DD.C.5348.02'', STOCK_STATUS = ''Maintenance''\<rparr>],
     pendingUpdates =
       [\<lparr>pu_id = ''1-SHIFT-1700000000001'', recordId = 1, field = F_SHIFT,
         oldValue = ''Day Shift'', newValue = ''Night Shift'', timestamp = 1700000000001, synced = False\<rparr>,
        \<lparr>pu_id = ''2-SHIFT-1700000000000'', recordId = 2, field = F_SHIFT,
         oldValue = ''Night Shift'', newValue = ''Day Shift'', timestamp = 1700000000000, synced = False\<rparr>]\<rparr>"

definition editedOnce :: tos_db where
  "editedOnce = snd (updateRecord 1700000000000 1700000000000 1 F_SHIFT ''Night Shift'' sampleDb)"

definition syncedDb :: tos_db where
  "syncedDb = clearPendingUpdate ''1-SHIFT-1700000000000'' editedOnce"

definition contractorHit :: tos_record where
  "contractorHit = \<lparr>ID = 10, CONTRACTOR = ''Pit 5348 Crew'', DATE = ''2025-01-19'',
     SHIFT = ''Day Shift'', STOCK_ID = ''AA.1'', STOCK_STATUS = ''Active''\<rparr>"

definition mixedRecords :: "tos_record list" where
  "mixedRecords =
    [\<lparr>ID = 1, CONTRACTOR = ''ABC Mining Co'', DATE = ''2025-01-15'', SHIFT = ''Day Shift'',
       STOCK_ID = ''BB.D.5348'', STOCK_STATUS = ''Active''\<rparr>,
     contractorHit]"

section \<open>Properties of the local search\<close>

lemma distanceLoop_count:
  "distance \<le> 2 \<Longrightarrow>
   distanceLoop str1 str2 maxLength i distance =
     (if distance + length (filter (\<lambda>k. charAt str1 k \<noteq> charAt str2 k) [i..<maxLength]) > 2 then 99
      else distance + length (filter (\<lambda>k. charAt str1 k \<noteq> charAt str2 k) [i..<maxLength]))"
proof (induction str1 str2 maxLength i distance rule: distanceLoop.induct)
  case (1 str1 str2 maxLength i distance)
  show ?case
  proof (cases "i < maxLength")
    case False
    with "1.prems" show ?thesis by (simp add: distanceLoop.simps)
  next
    case True
    then have split: "[i..<maxLength] = i # [i + 1..<maxLength]"
      by (simp add: upt_conv_Cons)
    let ?d = "if charAt str1 i \<noteq> charAt str2 i then distance + 1 else distance"
    show ?thesis
    proof (cases "?d > 2")
      case over: True
      then show ?thesis using True split
        by (subst distanceLoop.simps) (auto split: if_splits)
    next
      case under: False
      then have le: "?d \<le> 2" by simp
      have "distanceLoop str1 str2 maxLength i distance = distanceLoop str1 str2 maxLength (i + 1) ?d"
        using True under by (subst distanceLoop.simps) simp
      also have "\<dots> = (if ?d + length (filter (\<lambda>k. charAt str1 k \<noteq> charAt str2 k) [i + 1..<maxLength]) > 2 then 99
          else ?d + length (filter (\<lambda>k. charAt str1 k \<noteq> charAt str2 k) [i + 1..<maxLength]))"
        using "1.IH"[OF True under le] .
      finally show ?thesis using split by (auto split: if_splits)
    qed
  qed
qed

lemma calculateSimpleDistance_eq:
  "calculateSimpleDistance s q =
     (if \<bar>int (length s) - int (length q)\<bar> > 2 \<or> mismatches s q > 2 then 99 else mismatches s q)"
  by (simp add: calculateSimpleDistance_def mismatches_def distanceLoop_count)

lemma calculateSimpleDistance_le2:
  "calculateSimpleDistance s q \<le> 2 \<longleftrightarrow> \<bar>int (length s) - int (length q)\<bar> \<le> 2 \<and> mismatches s q \<le> 2"
  by (auto simp: calculateSimpleDistance_eq)

lemma priorityOf_lowestTier:
  "priorityOf query r = (case lowestTier tierApplies query r of None \<Rightarrow> 0 | Some k \<Rightarrow> k)"
  by (simp add: priorityOf_def lowestTier_def tierApplies_def Let_def)

lemma lowestTier_least:
  "lowestTier applies query r = Some k \<longleftrightarrow>
     k \<in> {1, 2, 3, 4, 5} \<and> applies k query r \<and> (\<forall>j \<in> {1, 2, 3, 4, 5}. j < k \<longrightarrow> \<not> applies j query r)"
  by (auto simp: lowestTier_def)

lemma collectMatches_records:
  "map match_record (collectMatches query rs) = filter (\<lambda>r. priorityOf query r > 0) rs"
  by (induction rs) auto

lemma collectMatches_priority:
  "m \<in> set (collectMatches query rs) \<Longrightarrow> match_priority m = priorityOf query (match_record m)"
  by (induction rs) (auto split: if_splits)

lemma mset_insertBy: "mset (insertBy cmp x ys) = add_mset x (mset ys)"
  by (induction ys) auto

lemma mset_arraySort: "mset (arraySort cmp xs) = mset xs"
  by (induction xs) (auto simp: mset_insertBy)

lemma set_arraySort: "set (arraySort cmp xs) = set xs"
  by (metis mset_arraySort set_mset_mset)

lemma sorted_insertBy:
  assumes "consistentCmp cmp" and "sorted_wrt (\<lambda>a b. cmp a b \<le> 0) ys"
  shows "sorted_wrt (\<lambda>a b. cmp a b \<le> 0) (insertBy cmp x ys)"
  using assms(2)
proof (induction ys)
  case Nil
  then show ?case by simp
next
  case (Cons y ys)
  have tot: "\<And>a b. cmp a b \<le> 0 \<or> cmp b a \<le> 0" and
       tr: "\<And>a b c. cmp a b \<le> 0 \<Longrightarrow> cmp b c \<le> 0 \<Longrightarrow> cmp a c \<le> 0"
    using assms(1) unfolding consistentCmp_def by blast+
  show ?case
  proof (cases "cmp x y \<le> 0")
    case True
    then have "\<forall>z \<in> set ys. cmp x z \<le> 0" using Cons.prems tr by auto
    with True Cons.prems show ?thesis by simp
  next
    case False
    then have yx: "cmp y x \<le> 0" using tot[of x y] by simp
    have "sorted_wrt (\<lambda>a b. cmp a b \<le> 0) (insertBy cmp x ys)"
      using Cons by simp
    moreover have "\<forall>z \<in> set (insertBy cmp x ys). cmp y z \<le> 0"
      using yx Cons.prems by (metis mset_insertBy set_mset_add_mset_insert set_mset_mset insert_iff sorted_wrt.simps(2))
    ultimately show ?thesis using False by simp
  qed
qed

lemma sorted_arraySort:
  "consistentCmp cmp \<Longrightarrow> sorted_wrt (\<lambda>a b. cmp a b \<le> 0) (arraySort cmp xs)"
  by (induction xs) (auto simp: sorted_insertBy)

lemma consistent_compareMatches:
  assumes "consistentCmp localeCompare"
  shows "consistentCmp (compareMatches localeCompare)"
proof -
  have tot: "\<And>a b. localeCompare a b \<le> 0 \<or> localeCompare b a \<le> 0" and
       tr: "\<And>a b c. localeCompare a b \<le> 0 \<Longrightarrow> localeCompare b c \<le> 0 \<Longrightarrow> localeCompare a c \<le> 0"
    using assms unfolding consistentCmp_def by blast+
  have "\<And>a b. compareMatches localeCompare a b \<le> 0 \<or> compareMatches localeCompare b a \<le> 0"
    using tot by (auto simp: compareMatches_def)
  moreover have "\<And>a b c. compareMatches localeCompare a b \<le> 0 \<Longrightarrow> compareMatches localeCompare b c \<le> 0
       \<Longrightarrow> compareMatches localeCompare a c \<le> 0"
    unfolding compareMatches_def using tr by (auto split: if_splits)
  ultimately show ?thesis unfolding consistentCmp_def by blast
qed

lemma priorityOf_positive: "(priorityOf q r > 0) = (lowestTier tierApplies q r \<noteq> None)"
  by (simp add: priorityOf_lowestTier split: option.splits) (auto simp: lowestTier_def)

text \<open>
  Claim C1, as the code has it. For a non-blank query the local search returns, in some
  order, exactly the records of the collection to which a tier applies; the priority it
  gives a record is the lowest-numbered tier that applies, in the order exact match, prefix,
  substring, contractor, fuzzy, and 0 (no match, record left out) when none applies. The
  fuzzy tier applies when the distance is at most 2 and the query is longer than two
  code units.
\<close>

theorem search_tiers:
  assumes "trim stockId \<noteq> []"
  shows "mset (searchRecords localeCompare stockId db) =
           mset (filter (\<lambda>r. lowestTier tierApplies (trim (toLowerCase stockId)) r \<noteq> None) (getAllRecords db))
         \<and> (\<forall>r. priorityOf (trim (toLowerCase stockId)) r =
                  (case lowestTier tierApplies (trim (toLowerCase stockId)) r of None \<Rightarrow> 0 | Some k \<Rightarrow> k))
         \<and> (\<forall>r k. lowestTier tierApplies (trim (toLowerCase stockId)) r = Some k \<longleftrightarrow>
                  k \<in> {1, 2, 3, 4, 5} \<and> tierApplies k (trim (toLowerCase stockId)) r \<and>
                  (\<forall>j \<in> {1, 2, 3, 4, 5}. j < k \<longrightarrow> \<not> tierApplies j (trim (toLowerCase stockId)) r))"
proof (intro conjI allI)
  let ?q = "trim (toLowerCase stockId)"
  have "mset (searchRecords localeCompare stockId db) = mset (map match_record (collectMatches ?q (getAllRecords db)))"
    using assms by (simp add: searchRecords_def Let_def mset_arraySort)
  also have "\<dots> = mset (filter (\<lambda>r. lowestTier tierApplies ?q r \<noteq> None) (getAllRecords db))"
    by (simp only: collectMatches_records priorityOf_positive)
  finally show "mset (searchRecords localeCompare stockId db) =
      mset (filter (\<lambda>r. lowestTier tierApplies ?q r \<noteq> None) (getAllRecords db))" .
next
  fix r
  show "priorityOf (trim (toLowerCase stockId)) r =
          (case lowestTier tierApplies (trim (toLowerCase stockId)) r of None \<Rightarrow> 0 | Some k \<Rightarrow> k)"
    by (rule priorityOf_lowestTier)
next
  fix r k
  show "lowestTier tierApplies (trim (toLowerCase stockId)) r = Some k \<longleftrightarrow>
          k \<in> {1, 2, 3, 4, 5} \<and> tierApplies k (trim (toLowerCase stockId)) r \<and>
          (\<forall>j \<in> {1, 2, 3, 4, 5}. j < k \<longrightarrow> \<not> tierApplies j (trim (toLowerCase stockId)) r)"
    by (rule lowestTier_least)
qed

theorem search_tiers_witness:
  "trim ''5348 '' \<noteq> [] \<and>
   map STOCK_ID (searchRecords codeUnitCompare ''5348 '' sampleDb) = [''BB.D.5348'', ''CC.A.5348.01'', ''DD.C.5348.02''] \<and>
   mset (searchRecords codeUnitCompare ''5348 '' sampleDb) =
     mset (filter (\<lambda>r. lowestTier tierApplies (trim (toLowerCase ''5348 '')) r \<noteq> None) (getAllRecords sampleDb))"
proof -
  have h: "trim ''5348 '' \<noteq> []" by code_simp
  have v: "map STOCK_ID (searchRecords codeUnitCompare ''5348 '' sampleDb) = [''BB.D.5348'', ''CC.A.5348.01'', ''DD.C.5348.02'']"
    by code_simp
  have t: "mset (searchRecords codeUnitCompare ''5348 '' sampleDb) =
     mset (filter (\<lambda>r. lowestTier tierApplies (trim (toLowerCase ''5348 '')) r \<noteq> None) (getAllRecords sampleDb))"
    using search_tiers[OF h, of codeUnitCompare sampleDb] by (rule conjunct1)
  from h v t show ?thesis by (intro conjI)
qed

text \<open>
  With the fuzzy tier as the specification words it, tier 5 applies to the record
  \<open>XY\<close> for the query \<open>xz\<close> (one position differs), yet the search leaves the record out.
\<close>

theorem search_tiers_counterexample:
  "lowestTier specTierApplies (trim (toLowerCase ''xz'')) fuzzyRecord = Some 5 \<and>
   searchRecords codeUnitCompare ''xz'' \<lparr>tosRecords = [fuzzyRecord], pendingUpdates = []\<rparr> = []"
  by code_simp

lemma compareMatches_ranked:
  assumes "match_priority a = priorityOf query (match_record a)"
      and "match_priority b = priorityOf query (match_record b)"
      and "compareMatches localeCompare a b \<le> 0"
  shows "rankedBefore localeCompare query (match_record a) (match_record b)"
  using assms unfolding compareMatches_def rankedBefore_def
  by (auto split: if_splits)

lemma rankedBefore_priority:
  "rankedBefore localeCompare query a b \<Longrightarrow> priorityOf query a \<le> priorityOf query b"
  unfolding rankedBefore_def by auto

lemma consistent_codeUnitCompare: "consistentCmp codeUnitCompare"
  unfolding consistentCmp_def codeUnitCompare_def by auto

lemma localeCompareModel_le_iff:
  "localeCompareModel a b \<le> 0 \<longleftrightarrow>
     toLowerCase a < toLowerCase b \<or> (toLowerCase a = toLowerCase b \<and> b \<le> a)"
  unfolding localeCompareModel_def by auto

lemma consistent_localeCompareModel: "consistentCmp localeCompareModel"
  unfolding consistentCmp_def localeCompareModel_le_iff by auto

lemma searchRecords_members:
  assumes "trim stockId \<noteq> []"
  shows "mset (searchRecords localeCompare stockId db) =
           mset (filter (\<lambda>r. priorityOf (trim (toLowerCase stockId)) r > 0) (getAllRecords db))"
proof -
  have "mset (searchRecords localeCompare stockId db) =
          mset (map match_record (collectMatches (trim (toLowerCase stockId)) (getAllRecords db)))"
    using assms by (simp add: searchRecords_def Let_def mset_arraySort)
  then show ?thesis by (simp only: collectMatches_records)
qed

lemma searchRecords_ranked:
  assumes "trim stockId \<noteq> []" and "consistentCmp localeCompare"
  shows "sorted_wrt (rankedBefore localeCompare (trim (toLowerCase stockId)))
           (searchRecords localeCompare stockId db)"
proof -
  let ?q = "trim (toLowerCase stockId)"
  let ?ms = "arraySort (compareMatches localeCompare) (collectMatches ?q (getAllRecords db))"
  have res: "searchRecords localeCompare stockId db = map match_record ?ms"
    using assms(1) by (simp add: searchRecords_def Let_def)
  have srt: "sorted_wrt (\<lambda>a b. compareMatches localeCompare a b \<le> 0) ?ms"
    using assms(2) by (intro sorted_arraySort consistent_compareMatches)
  have prio: "\<And>m. m \<in> set ?ms \<Longrightarrow> match_priority m = priorityOf ?q (match_record m)"
    by (simp add: set_arraySort collectMatches_priority)
  have "sorted_wrt (\<lambda>a b. rankedBefore localeCompare ?q (match_record a) (match_record b)) ?ms"
    using srt
  proof (rule sorted_wrt_mono_rel[rotated])
    fix a b
    assume "a \<in> set ?ms" "b \<in> set ?ms" "compareMatches localeCompare a b \<le> 0"
    then show "rankedBefore localeCompare ?q (match_record a) (match_record b)"
      using prio compareMatches_ranked by blast
  qed
  then show ?thesis by (simp add: res sorted_wrt_map)
qed

text \<open>
  Claim C2, as the code has it. For a non-blank query the sequence the local search returns
  is sorted ascending by tier, then by the length of the stock identifier, then by the
  comparison \<open>localeCompare\<close> of the stock identifiers, which is the collation of the
  runtime (any two strings comparable, transitive) and not the lexicographic comparison of
  the code units; in particular the tiers of the returned records never decrease along the
  sequence.
\<close>

theorem search_sorted:
  assumes "trim stockId \<noteq> []" and "consistentCmp localeCompare"
  shows "sorted_wrt (rankedBefore localeCompare (trim (toLowerCase stockId)))
           (searchRecords localeCompare stockId db)
         \<and> sorted (map (priorityOf (trim (toLowerCase stockId)))
                     (searchRecords localeCompare stockId db))"
proof -
  let ?q = "trim (toLowerCase stockId)"
  have ranked: "sorted_wrt (rankedBefore localeCompare ?q) (searchRecords localeCompare stockId db)"
    using assms by (rule searchRecords_ranked)
  then have "sorted_wrt (\<lambda>a b. priorityOf ?q a \<le> priorityOf ?q b) (searchRecords localeCompare stockId db)"
    by (rule sorted_wrt_mono_rel[rotated]) (rule rankedBefore_priority)
  then have "sorted (map (priorityOf ?q) (searchRecords localeCompare stockId db))"
    by (simp add: sorted_map)
  with ranked show ?thesis by (rule conjI)
qed

theorem search_sorted_witness:
  "trim ''5348'' \<noteq> [] \<and> consistentCmp localeCompareModel \<and>
   map STOCK_ID (searchRecords localeCompareModel ''5348'' caseDb) = [''b.5348'', ''C.5348''] \<and>
   sorted_wrt (rankedBefore localeCompareModel (trim (toLowerCase ''5348'')))
     (searchRecords localeCompareModel ''5348'' caseDb) \<and>
   sorted (map (priorityOf (trim (toLowerCase ''5348'')))
     (searchRecords localeCompareModel ''5348'' caseDb))"
proof -
  have h: "trim ''5348'' \<noteq> []" by code_simp
  have v: "map STOCK_ID (searchRecords localeCompareModel ''5348'' caseDb) = [''b.5348'', ''C.5348'']"
    by code_simp
  from search_sorted[OF h consistent_localeCompareModel, of caseDb] h v consistent_localeCompareModel
  show ?thesis by (intro conjI) simp_all
qed

text \<open>
  The stock identifiers \<open>C.5348\<close> and \<open>b.5348\<close> both contain the query \<open>5348\<close> (tier 3)
  and have the same length. The search lists \<open>b.5348\<close> first, as the collation has it, while
  in the lexicographic comparison of the code units \<open>C.5348\<close> is the smaller one.
\<close>

theorem search_sorted_counterexample:
  "trim ''5348'' \<noteq> [] \<and>
   map STOCK_ID (searchRecords localeCompareModel ''5348'' caseDb) = [''b.5348'', ''C.5348''] \<and>
   map (priorityOf (trim (toLowerCase ''5348''))) (searchRecords localeCompareModel ''5348'' caseDb) = [3, 3] \<and>
   ''C.5348'' < ''b.5348'' \<and>
   \<not> sorted_wrt (specRankedBefore (trim (toLowerCase ''5348'')))
        (searchRecords localeCompareModel ''5348'' caseDb)"
  by code_simp

text \<open>
  Claim C3, as the code has it. The fuzzy tier is the priority of a record exactly when
  none of the tiers 1 to 4 applies, the query is longer than two code units, the lengths of
  the lower-cased stock identifier and of the query differ by at most 2 and at most 2 aligned
  positions differ. The distance function answers 99 when the lengths differ by more than 2
  or more than 2 positions differ, and the number of differing positions otherwise.
\<close>

theorem fuzzy_tier:
  "(priorityOf query r = 5 \<longleftrightarrow>
      \<not> tierApplies 1 query r \<and> \<not> tierApplies 2 query r \<and> \<not> tierApplies 3 query r \<and>
      \<not> tierApplies 4 query r \<and> length query > 2 \<and>
      \<bar>int (length (toLowerCase (STOCK_ID r))) - int (length query)\<bar> \<le> 2 \<and>
      mismatches (toLowerCase (STOCK_ID r)) query \<le> 2)
   \<and> calculateSimpleDistance s q =
       (if \<bar>int (length s) - int (length q)\<bar> > 2 \<or> mismatches s q > 2 then 99 else mismatches s q)"
proof (rule conjI)
  show "priorityOf query r = 5 \<longleftrightarrow>
      \<not> tierApplies 1 query r \<and> \<not> tierApplies 2 query r \<and> \<not> tierApplies 3 query r \<and>
      \<not> tierApplies 4 query r \<and> length query > 2 \<and>
      \<bar>int (length (toLowerCase (STOCK_ID r))) - int (length query)\<bar> \<le> 2 \<and>
      mismatches (toLowerCase (STOCK_ID r)) query \<le> 2"
    by (simp add: priorityOf_def tierApplies_def Let_def calculateSimpleDistance_le2) blast
next
  show "calculateSimpleDistance s q =
       (if \<bar>int (length s) - int (length q)\<bar> > 2 \<or> mismatches s q > 2 then 99 else mismatches s q)"
    by (rule calculateSimpleDistance_eq)
qed

theorem fuzzy_tier_witness:
  "priorityOf ''bb.d.5349'' (hd sampleRecords) = 5 \<and>
   mismatches (toLowerCase (STOCK_ID (hd sampleRecords))) ''bb.d.5349'' = 1 \<and>
   calculateSimpleDistance ''bb.d.5348'' ''bb.d.5349'' = 1 \<and>
   calculateSimpleDistance ''bb.d.5348.01'' ''bb.d.5349'' = 99"
proof -
  have a: "\<not> tierApplies 1 ''bb.d.5349'' (hd sampleRecords) \<and> \<not> tierApplies 2 ''bb.d.5349'' (hd sampleRecords) \<and>
      \<not> tierApplies 3 ''bb.d.5349'' (hd sampleRecords) \<and> \<not> tierApplies 4 ''bb.d.5349'' (hd sampleRecords)"
    by code_simp
  have b: "length ''bb.d.5349'' > 2 \<and>
      \<bar>int (length (toLowerCase (STOCK_ID (hd sampleRecords)))) - int (length ''bb.d.5349'')\<bar> \<le> 2"
    by code_simp
  have m: "mismatches (toLowerCase (STOCK_ID (hd sampleRecords))) ''bb.d.5349'' = 1" by code_simp
  have m1: "mismatches ''bb.d.5348'' ''bb.d.5349'' = 1" by code_simp
  have l1: "\<not> \<bar>int (length ''bb.d.5348'') - int (length ''bb.d.5349'')\<bar> > 2" by simp
  have l2: "\<bar>int (length ''bb.d.5348.01'') - int (length ''bb.d.5349'')\<bar> > 2" by simp
  have p: "priorityOf ''bb.d.5349'' (hd sampleRecords) = 5"
    using fuzzy_tier[of "''bb.d.5349''" "hd sampleRecords"] a b m by simp
  have d1: "calculateSimpleDistance ''bb.d.5348'' ''bb.d.5349'' = 1"
    using fuzzy_tier[of "''bb.d.5349''" "hd sampleRecords" "''bb.d.5348''" "''bb.d.5349''"] m1 l1 by simp
  have d2: "calculateSimpleDistance ''bb.d.5348.01'' ''bb.d.5349'' = 99"
    using fuzzy_tier[of "''bb.d.5349''" "hd sampleRecords" "''bb.d.5348.01''" "''bb.d.5349''"] l2 by simp
  from p m d1 d2 show ?thesis by (intro conjI)
qed

text \<open>
  For the query \<open>xb\<close> and the record \<open>XY\<close> none of the tiers 1 to 4 applies and one
  position differs, yet the record gets no tier: the query has two code units only.
\<close>

theorem fuzzy_tier_counterexample:
  "\<not> specTierApplies 1 ''xb'' fuzzyRecord \<and> \<not> specTierApplies 2 ''xb'' fuzzyRecord \<and>
   \<not> specTierApplies 3 ''xb'' fuzzyRecord \<and> \<not> specTierApplies 4 ''xb'' fuzzyRecord \<and>
   mismatches (toLowerCase (STOCK_ID fuzzyRecord)) ''xb'' = 1 \<and>
   priorityOf ''xb'' fuzzyRecord = 0"
  by code_simp

section \<open>Properties of the server model\<close>

lemma findIndex_None_iff: "findIndex P xs = None \<longleftrightarrow> (\<forall>x \<in> set xs. \<not> P x)"
  by (induction xs) auto

lemma findIndex_bound: "findIndex P xs = Some i \<Longrightarrow> i < length xs"
  by (induction xs arbitrary: i) (auto split: if_splits)

lemma findIndex_ID: "findIndex (\<lambda>r. ID r = k) data = findIndex (\<lambda>x. x = k) (map ID data)"
  by (induction data) auto

lemma ID_assignField: "ID (assignField fld v r) = ID r"
  by (simp add: assignField_def)

lemma mock_updateRecord_IDs: "map ID (snd (mock_updateRecord recId fld v data)) = map ID data"
proof (cases "findIndex (\<lambda>r. ID r = recId) data")
  case None
  then show ?thesis by (simp add: mock_updateRecord_def)
next
  case (Some i)
  then have "i < length data" by (rule findIndex_bound)
  then have "map ID (data[i := assignField fld v (data ! i)]) = map ID data"
    by (simp add: map_update ID_assignField list_update_same_conv)
  with Some show ?thesis by (simp add: mock_updateRecord_def Let_def)
qed

lemma mock_updateRecord_missing:
  "recId \<notin> ID ` set data \<Longrightarrow>
   mock_updateRecord recId fld v data =
     (Inl (Error (''Record with ID '' @ showInt recId @ '' not found'')), data)"
proof -
  assume "recId \<notin> ID ` set data"
  then have "findIndex (\<lambda>r. ID r = recId) data = None"
    by (auto simp: findIndex_None_iff)
  then show ?thesis by (simp add: mock_updateRecord_def)
qed

lemma mock_updateRecord_invalid:
  "recId \<in> ID ` set data \<Longrightarrow> fld \<notin> set allowedFields \<Longrightarrow>
   mock_updateRecord recId fld v data = (Inl (Error (''Invalid field: '' @ fld)), data)"
proof -
  assume "recId \<in> ID ` set data" and bad: "fld \<notin> set allowedFields"
  then obtain i where "findIndex (\<lambda>r. ID r = recId) data = Some i"
    using findIndex_None_iff[of "\<lambda>r. ID r = recId" data] by (cases "findIndex (\<lambda>r. ID r = recId) data") auto
  with bad show ?thesis by (simp add: mock_updateRecord_def)
qed

lemma failureOf_IDs: "map ID d = map ID d' \<Longrightarrow> failureOf d u = failureOf d' u"
  by (simp add: failureOf_def mock_updateRecord_def findIndex_ID Let_def split: option.splits)

lemma bulkLoop_general:
  "map ID d = map ID data \<Longrightarrow>
   bulkLoop us res d =
     (res\<lparr>successful := successful res + (length us - length (List.map_filter (failureOf data) us)),
          failed := failed res + length (List.map_filter (failureOf data) us),
          errors := errors res @ List.map_filter (failureOf data) us\<rparr>,
      foldl applyIgnoringFailure d us)"
proof (induction us arbitrary: res d)
  case Nil
  then show ?case by (simp add: List.map_filter_simps)
next
  case (Cons u us)
  let ?r = "mock_updateRecord (upd_id u) (upd_field u) (upd_value u) d"
  have ids: "map ID (snd ?r) = map ID data"
    using Cons.prems by (simp add: mock_updateRecord_IDs)
  have same: "failureOf data u = failureOf d u"
    using Cons.prems by (intro failureOf_IDs) simp
  have len: "length (List.map_filter (failureOf data) us) \<le> length us"
    by (simp add: List.map_filter_def)
  have app: "applyIgnoringFailure d u = snd ?r"
    by (simp add: applyIgnoringFailure_def)
  show ?case
  proof (cases "fst ?r")
    case (Inl e)
    then have r: "?r = (Inl e, snd ?r)" by (metis prod.collapse)
    have f: "failureOf data u = Some \<lparr>err_id = upd_id u, err_error = message e\<rparr>"
      using Inl same by (simp add: failureOf_def)
    show ?thesis
      using len by (subst bulkLoop.simps, subst r) (simp add: Cons.IH[OF ids] f List.map_filter_simps app)
  next
    case (Inr x)
    then have r: "?r = (Inr x, snd ?r)" by (metis prod.collapse)
    have f: "failureOf data u = None"
      using Inr same by (simp add: failureOf_def)
    show ?thesis
      using len by (subst bulkLoop.simps, subst r) (simp add: Cons.IH[OF ids] f List.map_filter_simps app Suc_diff_le)
  qed
qed

lemma failureOf_Some_iff:
  "failureOf data u \<noteq> None \<longleftrightarrow> upd_id u \<notin> ID ` set data \<or> upd_field u \<notin> set allowedFields"
proof (cases "upd_id u \<in> ID ` set data")
  case False
  then show ?thesis by (simp add: failureOf_def mock_updateRecord_missing)
next
  case True
  then obtain i where "findIndex (\<lambda>r. ID r = upd_id u) data = Some i"
    using findIndex_None_iff[of "\<lambda>r. ID r = upd_id u" data]
    by (cases "findIndex (\<lambda>r. ID r = upd_id u) data") auto
  with True show ?thesis by (simp add: failureOf_def mock_updateRecord_def Let_def)
qed

text \<open>
  Claim C9. For every sequence of updates, \<open>bulkUpdate\<close> returns counts with
  \<open>successful + failed\<close> equal to the length of the input; \<open>errors\<close> holds one entry for
  each failing item (one whose record does not exist or whose field is not allowed), in the
  order of the input, and \<open>failed\<close> is their number; the data after the batch is the data
  after every item applied in turn, a failing item changing nothing and stopping nothing.
\<close>

theorem bulk_update_partial:
  "successful (fst (mock_bulkUpdate us data)) + failed (fst (mock_bulkUpdate us data)) = length us
   \<and> errors (fst (mock_bulkUpdate us data)) = List.map_filter (failureOf data) us
   \<and> failed (fst (mock_bulkUpdate us data)) = length (List.map_filter (failureOf data) us)
   \<and> snd (mock_bulkUpdate us data) = foldl applyIgnoringFailure data us
   \<and> (\<forall>u. failureOf data u \<noteq> None \<longleftrightarrow>
            upd_id u \<notin> ID ` set data \<or> upd_field u \<notin> set allowedFields)"
proof -
  have len: "length (List.map_filter (failureOf data) us) \<le> length us"
    by (simp add: List.map_filter_def)
  have "mock_bulkUpdate us data =
     (\<lparr>successful = length us - length (List.map_filter (failureOf data) us),
       failed = length (List.map_filter (failureOf data) us),
       errors = List.map_filter (failureOf data) us\<rparr>,
      foldl applyIgnoringFailure data us)"
    by (simp add: mock_bulkUpdate_def bulkLoop_general)
  then show ?thesis using len failureOf_Some_iff by simp
qed

theorem bulk_update_partial_witness:
  "fst (mock_bulkUpdate bulkSample sampleRecords) =
     \<lparr>successful = 2, failed = 2,
      errors = [\<lparr>err_id = 7, err_error = ''Record with ID 7 not found''\<rparr>,
                \<lparr>err_id = 2, err_error = ''Invalid field: DATE''\<rparr>]\<rparr>
   \<and> map STOCK_STATUS (snd (mock_bulkUpdate bulkSample sampleRecords)) = [''Active'', ''Empty'', ''Empty'', ''Maintenance'']
   \<and> successful (fst (mock_bulkUpdate bulkSample sampleRecords)) + failed (fst (mock_bulkUpdate bulkSample sampleRecords))
       = length bulkSample
   \<and> errors (fst (mock_bulkUpdate bulkSample sampleRecords)) = List.map_filter (failureOf sampleRecords) bulkSample"
proof -
  have a: "fst (mock_bulkUpdate bulkSample sampleRecords) =
     \<lparr>successful = 2, failed = 2,
      errors = [\<lparr>err_id = 7, err_error = ''Record with ID 7 not found''\<rparr>,
                \<lparr>err_id = 2, err_error = ''Invalid field: DATE''\<rparr>]\<rparr>"
    by code_simp
  have b: "map STOCK_STATUS (snd (mock_bulkUpdate bulkSample sampleRecords)) = [''Active'', ''Empty'', ''Empty'', ''Maintenance'']"
    by code_simp
  from a b bulk_update_partial[of bulkSample sampleRecords] show ?thesis by blast
qed

text \<open>
  Claim C10. In \<open>updateRecord\<close> of the server model the existence check comes first: for
  a record id that no record has, the call fails with the not-found error whatever the field
  name is, allowed or not, and the data is unchanged.
\<close>

theorem mock_update_not_found:
  assumes "recId \<notin> ID ` set data"
  shows "mock_updateRecord recId fld v data =
           (Inl (Error (''Record with ID '' @ showInt recId @ '' not found'')), data)"
  using assms by (rule mock_updateRecord_missing)

theorem mock_update_not_found_witness:
  "99 \<notin> ID ` set sampleRecords \<and> ''DATE'' \<notin> set allowedFields \<and>
   mock_updateRecord 99 ''DATE'' ''2025-02-01'' sampleRecords =
     (Inl (Error ''Record with ID 99 not found''), sampleRecords)"
proof -
  have h: "99 \<notin> ID ` set sampleRecords" by (simp add: sampleRecords_def)
  have f: "''DATE'' \<notin> set allowedFields" by (simp add: allowedFields_def)
  have s: "showInt 99 = ''99''" by code_simp
  from mock_update_not_found[OF h, of "''DATE''" "''2025-02-01''"] h f s show ?thesis by simp
qed

lemma mock_update_invalid_field_existing:
  assumes "fld \<notin> set allowedFields"
  shows "snd (mock_updateRecord recId fld v data) = data
         \<and> isl (fst (mock_updateRecord recId fld v data))
         \<and> (recId \<in> ID ` set data \<longrightarrow>
              fst (mock_updateRecord recId fld v data) = Inl (Error (''Invalid field: '' @ fld)))"
proof (cases "recId \<in> ID ` set data")
  case True
  then show ?thesis using assms by (simp add: mock_updateRecord_invalid)
next
  case False
  then show ?thesis by (simp add: mock_updateRecord_missing)
qed


section \<open>Properties of the offline mutation log\<close>

lemma digitChar_table:
  "digitChar 0 = CHR ''0''" "digitChar 1 = CHR ''1''" "digitChar 2 = CHR ''2''" "digitChar 3 = CHR ''3''"
  "digitChar 4 = CHR ''4''" "digitChar 5 = CHR ''5''" "digitChar 6 = CHR ''6''" "digitChar 7 = CHR ''7''"
  "digitChar 8 = CHR ''8''" "digitChar 9 = CHR ''9''" "digitChar (Suc 0) = CHR ''1''"
  by code_simp+

lemmas eval_db = sampleDb_def sampleRecords_def updateRecord_def storeGet_def storeAdd_def
  getPendingUpdates_def clearPendingUpdate_def pendingId_def showInt_def showNat.simps digitChar_table

lemma storeDelete_filter: "storeDelete k ps = filter (\<lambda>p. pu_id p \<noteq> k) ps"
  by (induction ps) auto

lemma storeDelete_absent: "k \<notin> pu_id ` set ps \<Longrightarrow> storeDelete k ps = ps"
  by (induction ps) auto

text \<open>
  Claim C8. \<open>clearPendingUpdate\<close> removes the entry with the given id and no other entry
  (the rest of the queue keeps its order, the records are untouched); for an id that is not
  in the queue it leaves the database as it was; clearing the same id twice is the same as
  clearing it once. It has no failing branch.
\<close>

theorem clear_pending_update:
  "getPendingUpdates (clearPendingUpdate k db) = filter (\<lambda>p. pu_id p \<noteq> k) (getPendingUpdates db)
   \<and> tosRecords (clearPendingUpdate k db) = tosRecords db
   \<and> (k \<notin> pu_id ` set (getPendingUpdates db) \<longrightarrow> clearPendingUpdate k db = db)
   \<and> clearPendingUpdate k (clearPendingUpdate k db) = clearPendingUpdate k db"
  by (simp add: clearPendingUpdate_def getPendingUpdates_def storeDelete_filter storeDelete_absent[unfolded storeDelete_filter])

theorem clear_pending_update_witness:
  "''3-SHIFT-1700000000002'' \<notin> pu_id ` set (getPendingUpdates queuedDb)
   \<and> clearPendingUpdate ''3-SHIFT-1700000000002'' queuedDb = queuedDb
   \<and> map pu_id (getPendingUpdates (clearPendingUpdate ''1-SHIFT-1700000000001'' queuedDb)) = [''2-SHIFT-1700000000000'']
   \<and> clearPendingUpdate ''1-SHIFT-1700000000001'' (clearPendingUpdate ''1-SHIFT-1700000000001'' queuedDb)
       = clearPendingUpdate ''1-SHIFT-1700000000001'' queuedDb"
proof -
  have h: "''3-SHIFT-1700000000002'' \<notin> pu_id ` set (getPendingUpdates queuedDb)"
    by (simp add: queuedDb_def getPendingUpdates_def)
  have r: "map pu_id (filter (\<lambda>p. pu_id p \<noteq> ''1-SHIFT-1700000000001'') (getPendingUpdates queuedDb)) = [''2-SHIFT-1700000000000'']"
    by (simp add: queuedDb_def getPendingUpdates_def)
  from clear_pending_update[of "''3-SHIFT-1700000000002''" queuedDb]
       clear_pending_update[of "''1-SHIFT-1700000000001''" queuedDb] h r
  show ?thesis by simp
qed

lemma set_storeInsert: "set (storeInsert p ps) = insert p (set ps)"
  by (induction ps) auto

lemma length_storeInsert: "length (storeInsert p ps) = Suc (length ps)"
  by (induction ps) auto

lemma mset_storeInsert: "mset (storeInsert p ps) = add_mset p (mset ps)"
  by (induction ps) auto

lemma sorted_storeInsert:
  "sorted (map pu_id ps) \<Longrightarrow> sorted (map pu_id (storeInsert p ps))"
  by (induction ps) (auto simp: set_storeInsert)

lemma updateRecord_success:
  assumes "updateRecord nowId nowStamp recId fld v db = (Inr u, db')"
  shows "\<exists>p. pu_id p = pendingId recId fld nowId \<and> pu_id p \<notin> pu_id ` set (pendingUpdates db) \<and>
             pendingUpdates db' = storeInsert p (pendingUpdates db)"
proof -
  from assms obtain r0 where g: "storeGet recId (tosRecords db) = Some r0"
    by (auto simp: updateRecord_def split: option.splits)
  let ?p = "\<lparr>pu_id = pendingId recId fld nowId, recordId = recId, field = fld,
              oldValue = readField fld r0, newValue = v, timestamp = nowStamp,
              synced = False\<rparr>"
  from assms g have "pendingId recId fld nowId \<notin> pu_id ` set (pendingUpdates db)"
    and "pendingUpdates db' = storeInsert ?p (pendingUpdates db)"
    by (auto simp: updateRecord_def storeAdd_def Let_def split: if_splits)
  then show ?thesis by (intro exI[of _ ?p]) simp
qed

lemma distinct_storeInsert:
  "pu_id p \<notin> pu_id ` set ps \<Longrightarrow> distinct (map pu_id ps) \<Longrightarrow>
   distinct (map pu_id (storeInsert p ps))"
  by (induction ps) (auto simp: set_storeInsert)

lemma applyEdits_pending:
  assumes "applyEdits es db = Some db'" and "sorted (map pu_id (pendingUpdates db))"
      and "distinct (map pu_id (pendingUpdates db))"
  shows "sorted (map pu_id (pendingUpdates db')) \<and> distinct (map pu_id (pendingUpdates db')) \<and>
         mset (map pu_id (pendingUpdates db')) = mset (map pu_id (pendingUpdates db)) + mset (map editId es)"
  using assms
proof (induction es arbitrary: db)
  case Nil
  then show ?case by simp
next
  case (Cons e es)
  from Cons.prems(1) obtain u db1 where
    step: "updateRecord (e_nowId e) (e_nowStamp e) (e_recordId e) (e_field e) (e_value e) db = (Inr u, db1)"
    and rest: "applyEdits es db1 = Some db'"
    by (auto split: prod.splits sum.splits)
  from updateRecord_success[OF step] obtain p where
    p: "pu_id p = editId e" "pu_id p \<notin> pu_id ` set (pendingUpdates db)"
       "pendingUpdates db1 = storeInsert p (pendingUpdates db)"
    by (auto simp: editId_def)
  have s1: "sorted (map pu_id (pendingUpdates db1))"
    using Cons.prems(2) p(3) by (simp add: sorted_storeInsert)
  have d1: "distinct (map pu_id (pendingUpdates db1))"
    using Cons.prems(3) p(2,3) by (simp add: distinct_storeInsert)
  have m1: "mset (map pu_id (pendingUpdates db1)) = add_mset (editId e) (mset (map pu_id (pendingUpdates db)))"
    using p by (simp add: mset_storeInsert)
  from Cons.IH[OF rest s1 d1] m1 show ?case by simp
qed

text \<open>
  Claim C7, as the code has it. Starting from an empty pending queue, after N successful
  \<open>updateRecord\<close> calls with no \<open>clearPendingUpdate\<close> in between, \<open>getPendingUpdates\<close>
  returns exactly N entries; the N generated ids are distinct, and the entries are listed in
  ascending order of the generated id (the key order of the object store).
\<close>

theorem pending_after_edits:
  assumes "pendingUpdates db = []" and "applyEdits es db = Some db'"
  shows "length (getPendingUpdates db') = length es
         \<and> distinct (map editId es)
         \<and> map pu_id (getPendingUpdates db') = sort (map editId es)"
proof -
  have srt: "sorted (map pu_id (pendingUpdates db'))"
    and dst: "distinct (map pu_id (pendingUpdates db'))"
    and ms: "mset (map pu_id (pendingUpdates db')) = mset (map editId es)"
    using applyEdits_pending[OF assms(2)] assms(1) by simp_all
  from ms have len: "length (map pu_id (pendingUpdates db')) = length (map editId es)"
    by (rule mset_eq_length)
  from ms dst have ids: "distinct (map editId es)"
    using mset_eq_imp_distinct_iff by blast
  from ms srt have "sort (map editId es) = map pu_id (pendingUpdates db')"
    by (rule properties_for_sort)
  with len ids show ?thesis by (simp add: getPendingUpdates_def)
qed

lemma two_edits_result: "applyEdits [firstEdit, secondEdit] sampleDb = Some queuedDb"
  by (simp add: firstEdit_def secondEdit_def queuedDb_def eval_db)

theorem pending_after_edits_witness:
  "pendingUpdates sampleDb = [] \<and> applyEdits [firstEdit, secondEdit] sampleDb = Some queuedDb \<and>
   length (getPendingUpdates queuedDb) = 2 \<and>
   map pu_id (getPendingUpdates queuedDb) = sort (map editId [firstEdit, secondEdit])"
proof -
  have h: "pendingUpdates sampleDb = []" by (simp add: sampleDb_def)
  from pending_after_edits[OF h two_edits_result] h two_edits_result show ?thesis by simp
qed

text \<open>
  Record 2 is edited first and record 1 a millisecond later: the queue lists the entry of
  record 1 first, the reverse of the order of insertion.
\<close>

theorem pending_after_edits_counterexample:
  "applyEdits [firstEdit, secondEdit] sampleDb = Some queuedDb \<and>
   map editId [firstEdit, secondEdit] = [''2-SHIFT-1700000000000'', ''1-SHIFT-1700000000001''] \<and>
   map pu_id (getPendingUpdates queuedDb) = [''1-SHIFT-1700000000001'', ''2-SHIFT-1700000000000'']"
  by (simp add: firstEdit_def secondEdit_def editId_def queuedDb_def eval_db)

subsection \<open>Generated identifiers\<close>

lemma digit_cases: "d < 10 \<Longrightarrow> d \<in> {0, 1, 2, 3, 4, 5, 6, 7, 8, 9::nat}"
  by auto

lemma digitVal_digitChar: "d < 10 \<Longrightarrow> digitVal (digitChar d) = d"
  by (simp add: digitVal_def digitChar_def)

lemma digitChar_not_dash: "d < 10 \<Longrightarrow> digitChar d \<noteq> CHR ''-''"
  using digit_cases[of d] by (auto simp: digitChar_table)

lemma showNat_no_dash: "CHR ''-'' \<notin> set (showNat n)"
proof (induction n rule: showNat.induct)
  case (1 n)
  show ?case
  proof (cases "n < 10")
    case True
    then show ?thesis using digitChar_not_dash[of n] by (subst showNat.simps) auto
  next
    case False
    then have "CHR ''-'' \<notin> set (showNat (n div 10))" by (rule "1.IH")
    moreover have "digitChar (n mod 10) \<noteq> CHR ''-''" by (rule digitChar_not_dash) simp
    ultimately show ?thesis using False by (subst showNat.simps) auto
  qed
qed

lemma showNat_not_Nil: "showNat n \<noteq> []"
  by (subst showNat.simps) simp

lemma readNat_showNat: "readNat (showNat n) = n"
proof (induction n rule: showNat.induct)
  case (1 n)
  show ?case
  proof (cases "n < 10")
    case True
    then show ?thesis by (subst showNat.simps) (simp add: readNat_def digitVal_digitChar)
  next
    case False
    then have "readNat (showNat (n div 10)) = n div 10" by (rule "1.IH")
    then have "readNat (showNat (n div 10) @ [digitChar (n mod 10)]) = (n div 10) * 10 + n mod 10"
      by (simp add: readNat_def digitVal_digitChar)
    then show ?thesis using False by (subst showNat.simps) simp
  qed
qed

lemma showNat_inj: "showNat a = showNat b \<Longrightarrow> a = b"
proof -
  assume "showNat a = showNat b"
  then have "readNat (showNat a) = readNat (showNat b)" by simp
  then show "a = b" by (simp only: readNat_showNat)
qed

lemma showInt_inj: "showInt i = showInt j \<Longrightarrow> i = j"
proof -
  assume eq: "showInt i = showInt j"
  have hd_nat: "\<And>n. hd (showNat n) \<noteq> CHR ''-''"
  proof -
    fix n
    have "hd (showNat n) \<in> set (showNat n)" using showNat_not_Nil by (rule hd_in_set)
    then show "hd (showNat n) \<noteq> CHR ''-''" using showNat_no_dash[of n] by auto
  qed
  show "i = j"
  proof (cases "i < 0")
    case True
    show ?thesis
    proof (cases "j < 0")
      case jn: True
      with True eq have "showNat (nat (- i)) = showNat (nat (- j))" by (simp add: showInt_def)
      then have "nat (- i) = nat (- j)" by (rule showNat_inj)
      with True jn show ?thesis by simp
    next
      case False
      with True eq have "CHR ''-'' # showNat (nat (- i)) = showNat (nat j)" by (simp add: showInt_def)
      then have "hd (showNat (nat j)) = hd (CHR ''-'' # showNat (nat (- i)))" by simp
      then have "hd (showNat (nat j)) = CHR ''-''" by simp
      with hd_nat show ?thesis by blast
    qed
  next
    case False
    show ?thesis
    proof (cases "j < 0")
      case True
      with False eq have "showNat (nat i) = CHR ''-'' # showNat (nat (- j))" by (simp add: showInt_def)
      then have "hd (showNat (nat i)) = CHR ''-''" by simp
      with hd_nat show ?thesis by blast
    next
      case jp: False
      with False eq have "showNat (nat i) = showNat (nat j)" by (simp add: showInt_def)
      then have "nat i = nat j" by (rule showNat_inj)
      with False jp show ?thesis by simp
    qed
  qed
qed

lemma split_first_sep:
  "x \<notin> set xs \<Longrightarrow> x \<notin> set xs' \<Longrightarrow> xs @ x # ys = xs' @ x # ys' \<Longrightarrow> xs = xs' \<and> ys = ys'"
proof (induction xs arbitrary: xs')
  case Nil
  then show ?case by (cases xs') auto
next
  case (Cons a xs)
  then show ?case by (cases xs') auto
qed

lemma split_last_dash:
  assumes "CHR ''-'' \<notin> set b" and "CHR ''-'' \<notin> set b'" and "a @ CHR ''-'' # b = a' @ CHR ''-'' # b'"
  shows "a = a' \<and> b = b'"
proof -
  from assms(3) have "rev (a @ CHR ''-'' # b) = rev (a' @ CHR ''-'' # b')" by simp
  then have "rev b @ CHR ''-'' # rev a = rev b' @ CHR ''-'' # rev a'" by simp
  moreover have "CHR ''-'' \<notin> set (rev b)" "CHR ''-'' \<notin> set (rev b')" using assms(1,2) by simp_all
  ultimately have "rev b = rev b' \<and> rev a = rev a'"
    using split_first_sep[of "CHR ''-''" "rev b" "rev b'" "rev a" "rev a'"] by blast
  then show ?thesis by simp
qed

lemma fieldName_no_dash: "CHR ''-'' \<notin> set (fieldName f)"
  by (cases f) simp_all

lemma fieldName_inj: "fieldName f = fieldName g \<Longrightarrow> f = g"
  by (cases f; cases g) simp_all

lemma pendingId_inj:
  assumes "pendingId i f t = pendingId i' f' t'"
  shows "i = i' \<and> f = f' \<and> t = t'"
proof -
  from assms have "(showInt i @ CHR ''-'' # fieldName f) @ CHR ''-'' # showNat t
      = (showInt i' @ CHR ''-'' # fieldName f') @ CHR ''-'' # showNat t'"
    by (simp add: pendingId_def)
  then have outer: "showInt i @ CHR ''-'' # fieldName f = showInt i' @ CHR ''-'' # fieldName f'"
    and t: "showNat t = showNat t'"
    using split_last_dash[OF showNat_no_dash showNat_no_dash] by blast+
  from outer have "showInt i = showInt i'" and "fieldName f = fieldName f'"
    using split_last_dash[OF fieldName_no_dash fieldName_no_dash] by blast+
  with t show ?thesis using showInt_inj showNat_inj fieldName_inj by blast
qed

lemma updateRecord_queued:
  assumes "pendingId recId fld nowId \<in> pu_id ` set (pendingUpdates db)"
  shows "isl (fst (updateRecord nowId nowStamp recId fld v db)) \<and> snd (updateRecord nowId nowStamp recId fld v db) = db"
  using assms by (simp add: updateRecord_def storeAdd_def Let_def split: option.splits)

text \<open>
  Claim C6, as the code has it. Two generated identifiers are equal exactly when record id,
  field and the millisecond clock reading are all equal, so two edits differ in their
  identifiers whenever they differ in one of the three. An edit whose identifier is in the
  queue already fails and changes nothing (the store refuses the second \<open>add\<close> under that key).
\<close>

theorem pending_id_unique:
  "(pendingId i f t = pendingId i' f' t' \<longleftrightarrow> i = i' \<and> f = f' \<and> t = t')
   \<and> (pendingId recId fld nowId \<in> pu_id ` set (pendingUpdates db) \<longrightarrow>
        isl (fst (updateRecord nowId nowStamp recId fld v db)) \<and>
        snd (updateRecord nowId nowStamp recId fld v db) = db)"
  using pendingId_inj[of i f t i' f' t'] updateRecord_queued[of recId fld nowId db nowStamp v]
  by blast

theorem pending_id_unique_witness:
  "pendingId 1 F_SHIFT 1700000000000 \<noteq> pendingId 1 F_SHIFT 1700000000001 \<and>
   pendingId 1 F_SHIFT 1700000000001 \<in> pu_id ` set (pendingUpdates queuedDb) \<and>
   isl (fst (updateRecord 1700000000001 1700000000002 1 F_SHIFT ''Day Shift'' queuedDb)) \<and>
   snd (updateRecord 1700000000001 1700000000002 1 F_SHIFT ''Day Shift'' queuedDb) = queuedDb"
proof -
  have h: "pendingId 1 F_SHIFT 1700000000001 \<in> pu_id ` set (pendingUpdates queuedDb)"
    by (simp add: queuedDb_def pendingId_def showInt_def showNat.simps digitChar_table)
  have d: "(1700000000000::nat) \<noteq> 1700000000001" by simp
  from pending_id_unique[of 1 F_SHIFT 1700000000000 1 F_SHIFT 1700000000001
         1 F_SHIFT 1700000000001 queuedDb 1700000000002 "''Day Shift''"] h d
  show ?thesis by blast
qed

text \<open>
  An edit of the shift of record 1, the clearing of its entry after the synchronisation, and a
  second edit of the same field with the same clock reading: both edits succeed and both
  generate the identifier \<open>1-SHIFT-1700000000000\<close>.
\<close>

theorem pending_id_unique_counterexample:
  "fst (updateRecord 1700000000000 1700000000000 1 F_SHIFT ''Night Shift'' sampleDb) = Inr () \<and>
   map pu_id (getPendingUpdates editedOnce) = [''1-SHIFT-1700000000000''] \<and>
   getPendingUpdates syncedDb = [] \<and>
   fst (updateRecord 1700000000000 1700000000000 1 F_SHIFT ''Day Shift'' syncedDb) = Inr () \<and>
   map pu_id (getPendingUpdates (snd (updateRecord 1700000000000 1700000000000 1 F_SHIFT ''Day Shift'' syncedDb)))
     = [''1-SHIFT-1700000000000'']"
  by (simp add: editedOnce_def syncedDb_def eval_db)

section \<open>The local search and the server search compared\<close>

lemma startsWith_refl: "startsWith s s"
  by (induction s) auto

lemma startsWith_includes: "startsWith s q \<Longrightarrow> includesStr s q"
  by (cases s; cases q) auto

lemma priorityOf_mockMatches:
  "priorityOf q r \<in> {1, 2, 3, 4} \<longleftrightarrow> mockMatches q r"
  using startsWith_refl[of q] startsWith_includes[of "toLowerCase (STOCK_ID r)" q]
  by (auto simp: priorityOf_def mockMatches_def Let_def)

lemma priorityOf_class:
  "relevanceClass q r = (if priorityOf q r = 1 then 1 else if priorityOf q r = 2 then 2 else 3)"
  using startsWith_refl[of q]
  by (auto simp: priorityOf_def relevanceClass_def Let_def)

lemma isWhiteSpace_lowerChar: "isWhiteSpace (lowerChar c) = isWhiteSpace c"
proof (cases "(65 \<le> (of_char c :: nat) \<and> (of_char c :: nat) \<le> 90) \<or>
              (192 \<le> (of_char c :: nat) \<and> (of_char c :: nat) \<le> 222 \<and> (of_char c :: nat) \<noteq> 215)")
  case False
  have "lowerChar c = c"
    unfolding lowerChar_def Let_def by (simp only: False if_False)
  then show ?thesis by simp
next
  case True
  have "lowerChar c = char_of ((of_char c :: nat) + 32)"
    unfolding lowerChar_def Let_def by (simp only: True if_True)
  moreover have "(of_char (char_of ((of_char c :: nat) + 32)) :: nat) = of_char c + 32"
    using True by auto
  ultimately have "(of_char (lowerChar c) :: nat) = of_char c + 32" by simp
  with True show ?thesis unfolding isWhiteSpace_def by auto
qed

lemma trim_toLowerCase: "trim (toLowerCase s) = toLowerCase (trim s)"
proof -
  have dw: "\<And>xs. dropWhile isWhiteSpace (map lowerChar xs) = map lowerChar (dropWhile isWhiteSpace xs)"
    by (simp add: dropWhile_map comp_def isWhiteSpace_lowerChar)
  show ?thesis
    by (simp add: trim_def toLowerCase_def dw rev_map)
qed

lemma toLowerCase_not_Nil: "toLowerCase s = [] \<longleftrightarrow> s = []"
  by (simp add: toLowerCase_def)

lemma truncate_withTotalCount: "tos_record.truncate (withTotalCount n r) = r"
  by (simp add: withTotalCount_def tos_record.truncate_def)

lemma length_toLowerCase: "length (toLowerCase s) = length s"
  by (simp add: toLowerCase_def)

lemma compareMock_le_iff:
  "compareMock q a b \<le> 0 \<longleftrightarrow>
     relevanceClass q a < relevanceClass q b \<or>
     (relevanceClass q a = relevanceClass q b \<and> length (STOCK_ID a) \<le> length (STOCK_ID b))"
proof -
  have la: "length (toLowerCase (STOCK_ID a)) = length (STOCK_ID a)"
    and lb: "length (toLowerCase (STOCK_ID b)) = length (STOCK_ID b)"
    by (rule length_toLowerCase)+
  show ?thesis
  proof (cases "toLowerCase (STOCK_ID a) = q")
    case aE: True
    show ?thesis
    proof (cases "toLowerCase (STOCK_ID b) = q")
      case True
      with aE la lb show ?thesis
        by (simp add: compareMock_def relevanceClass_def Let_def startsWith_refl)
    next
      case False
      with aE show ?thesis
        by (simp add: compareMock_def relevanceClass_def Let_def startsWith_refl)
    qed
  next
    case aN: False
    show ?thesis
    proof (cases "toLowerCase (STOCK_ID b) = q")
      case True
      with aN show ?thesis
        by (simp add: compareMock_def relevanceClass_def Let_def startsWith_refl)
    next
      case False
      with aN la lb show ?thesis
        by (simp add: compareMock_def relevanceClass_def Let_def)
    qed
  qed
qed

lemma consistent_compareMock: "consistentCmp (compareMock q)"
  unfolding consistentCmp_def compareMock_le_iff by auto

lemma compareMock_class:
  "compareMock q a b \<le> 0 \<Longrightarrow> relevanceClass q a \<le> relevanceClass q b"
  unfolding compareMock_le_iff by auto

lemma mock_searchRecords_default:
  assumes "trim query \<noteq> []" and "length (filter (mockMatches (toLowerCase query)) data) \<le> 50"
  shows "map tos_record.truncate (records (mock_searchRecords query noFilters data)) =
           arraySort (compareMock (toLowerCase query)) (filter (mockMatches (toLowerCase query)) data)"
proof -
  let ?rs = "arraySort (compareMock (toLowerCase query)) (filter (mockMatches (toLowerCase query)) data)"
  have len: "length ?rs \<le> 50"
    using assms(2) mset_arraySort[of "compareMock (toLowerCase query)" "filter (mockMatches (toLowerCase query)) data"]
    by (metis size_mset)
  have "records (mock_searchRecords query noFilters data) = map (withTotalCount (length ?rs)) ?rs"
    using assms(1) len by (simp add: mock_searchRecords_def noFilters_def truthy_def Let_def)
  then show ?thesis by (simp add: comp_def truncate_withTotalCount)
qed

text \<open>
  Claim C4, as the code has it. For a non-blank query without surrounding white space, with
  no filters and at most 50 matches (the default page), the server search on in-memory data
  returns exactly the records that the local search puts in the tiers 1 to 4, and both
  results list exact matches of the stock identifier first, prefix matches next and all
  other matches after them. The order among the other matches is not the same in the two
  searches.
\<close>

theorem backends_agree:
  assumes "trim query \<noteq> []" and "trim query = query" and "consistentCmp localeCompare"
      and "length (filter (mockMatches (toLowerCase query)) data) \<le> 50"
  shows "mset (map tos_record.truncate (records (mock_searchRecords query noFilters data))) =
           mset (filter (\<lambda>r. priorityOf (toLowerCase query) r \<in> {1, 2, 3, 4})
                   (searchRecords localeCompare query \<lparr>tosRecords = data, pendingUpdates = pending\<rparr>))
         \<and> sorted (map (relevanceClass (toLowerCase query))
                     (searchRecords localeCompare query \<lparr>tosRecords = data, pendingUpdates = pending\<rparr>))
         \<and> sorted (map (relevanceClass (toLowerCase query))
                     (map tos_record.truncate (records (mock_searchRecords query noFilters data))))"
proof (intro conjI)
  let ?q = "toLowerCase query"
  let ?db = "\<lparr>tosRecords = data, pendingUpdates = pending\<rparr>"
  let ?local = "searchRecords localeCompare query ?db"
  let ?server = "map tos_record.truncate (records (mock_searchRecords query noFilters data))"
  have q: "trim (toLowerCase query) = ?q"
    using assms(2) by (simp add: trim_toLowerCase)
  have server: "?server = arraySort (compareMock ?q) (filter (mockMatches ?q) data)"
    using assms(1,4) by (rule mock_searchRecords_default)
  have members: "mset ?local = mset (filter (\<lambda>r. priorityOf ?q r > 0) data)"
    using searchRecords_members[OF assms(1), of localeCompare ?db] by (simp add: q getAllRecords_def)
  have ff: "filter (\<lambda>r. priorityOf ?q r \<in> {1, 2, 3, 4}) (filter (\<lambda>r. priorityOf ?q r > 0) data)
      = filter (\<lambda>r. priorityOf ?q r \<in> {1, 2, 3, 4}) data"
    by (induction data) auto
  have "mset (filter (\<lambda>r. priorityOf ?q r \<in> {1, 2, 3, 4}) ?local) =
          mset (filter (\<lambda>r. priorityOf ?q r \<in> {1, 2, 3, 4}) (filter (\<lambda>r. priorityOf ?q r > 0) data))"
    by (simp only: mset_filter members)
  also have "\<dots> = mset (filter (\<lambda>r. priorityOf ?q r \<in> {1, 2, 3, 4}) data)"
    by (simp only: ff)
  also have "\<dots> = mset (filter (mockMatches ?q) data)"
    by (simp only: priorityOf_mockMatches)
  finally show "mset ?server = mset (filter (\<lambda>r. priorityOf ?q r \<in> {1, 2, 3, 4}) ?local)"
    by (simp add: server mset_arraySort)
next
  let ?q = "toLowerCase query"
  let ?db = "\<lparr>tosRecords = data, pendingUpdates = pending\<rparr>"
  let ?local = "searchRecords localeCompare query ?db"
  have q: "trim (toLowerCase query) = ?q"
    using assms(2) by (simp add: trim_toLowerCase)
  have "sorted_wrt (rankedBefore localeCompare ?q) ?local"
    using searchRecords_ranked[OF assms(1,3), of ?db] by (simp add: q)
  moreover have "set ?local \<subseteq> {r. priorityOf ?q r > 0}"
  proof -
    have "set_mset (mset ?local) = set_mset (mset (filter (\<lambda>r. priorityOf ?q r > 0) (getAllRecords ?db)))"
      using searchRecords_members[OF assms(1), of localeCompare ?db] by (simp only: q)
    then have "set ?local = set (filter (\<lambda>r. priorityOf ?q r > 0) (getAllRecords ?db))"
      by (simp only: set_mset_mset)
    then show ?thesis by auto
  qed
  ultimately have "sorted_wrt (\<lambda>a b. relevanceClass ?q a \<le> relevanceClass ?q b) ?local"
  proof (elim sorted_wrt_mono_rel[rotated])
    fix a b
    assume "set ?local \<subseteq> {r. priorityOf ?q r > 0}" "a \<in> set ?local" "b \<in> set ?local"
      and "rankedBefore localeCompare ?q a b"
    then have "priorityOf ?q a > 0" "priorityOf ?q a \<le> priorityOf ?q b"
      using rankedBefore_priority by blast+
    then show "relevanceClass ?q a \<le> relevanceClass ?q b"
      by (simp add: priorityOf_class)
  qed
  then show "sorted (map (relevanceClass ?q) ?local)" by (simp add: sorted_map)
next
  let ?q = "toLowerCase query"
  have server: "map tos_record.truncate (records (mock_searchRecords query noFilters data)) =
      arraySort (compareMock ?q) (filter (mockMatches ?q) data)"
    using assms(1,4) by (rule mock_searchRecords_default)
  have "sorted_wrt (\<lambda>a b. compareMock ?q a b \<le> 0) (arraySort (compareMock ?q) (filter (mockMatches ?q) data))"
    using consistent_compareMock by (rule sorted_arraySort)
  then have "sorted_wrt (\<lambda>a b. relevanceClass ?q a \<le> relevanceClass ?q b)
      (arraySort (compareMock ?q) (filter (mockMatches ?q) data))"
    by (rule sorted_wrt_mono_rel[rotated]) (rule compareMock_class)
  then show "sorted (map (relevanceClass ?q)
      (map tos_record.truncate (records (mock_searchRecords query noFilters data))))"
    by (simp only: server sorted_map)
qed

theorem backends_agree_witness:
  "trim ''5348'' \<noteq> [] \<and> trim ''5348'' = ''5348'' \<and> consistentCmp codeUnitCompare \<and>
   length (filter (mockMatches (toLowerCase ''5348'')) mixedRecords) \<le> 50 \<and>
   mset (map tos_record.truncate (records (mock_searchRecords ''5348'' noFilters mixedRecords))) =
     mset (filter (\<lambda>r. priorityOf (toLowerCase ''5348'') r \<in> {1, 2, 3, 4})
            (searchRecords codeUnitCompare ''5348'' \<lparr>tosRecords = mixedRecords, pendingUpdates = []\<rparr>)) \<and>
   sorted (map (relevanceClass (toLowerCase ''5348''))
            (searchRecords codeUnitCompare ''5348'' \<lparr>tosRecords = mixedRecords, pendingUpdates = []\<rparr>)) \<and>
   sorted (map (relevanceClass (toLowerCase ''5348''))
            (map tos_record.truncate (records (mock_searchRecords ''5348'' noFilters mixedRecords))))"
proof -
  have h1: "trim ''5348'' \<noteq> []" by code_simp
  have h2: "trim ''5348'' = ''5348''" by code_simp
  have h4: "length (filter (mockMatches (toLowerCase ''5348'')) mixedRecords) \<le> 50" by code_simp
  from backends_agree[OF h1 h2 consistent_codeUnitCompare h4, of "[]"] h1 h2 h4 consistent_codeUnitCompare
  show ?thesis by (intro conjI) simp_all
qed

text \<open>
  For the query \<open>5348\<close>, a record whose stock identifier contains the query and a record
  with a shorter stock identifier whose contractor contains it: the local search lists the
  first before the second (tier 3 before tier 4), the server search the second before the
  first (shorter stock identifier first).
\<close>

theorem backends_agree_counterexample:
  "map STOCK_ID (searchRecords codeUnitCompare ''5348'' \<lparr>tosRecords = mixedRecords, pendingUpdates = []\<rparr>)
     = [''BB.D.5348'', ''AA.1''] \<and>
   map STOCK_ID (records (mock_searchRecords ''5348'' noFilters mixedRecords))
     = [''AA.1'', ''BB.D.5348'']"
  by code_simp

end
